theory Spec2Isabelle
  imports Main "HOL-Library.Char_ord" "HOL-Library.List_Lexorder" "HOL-Library.AList"
begin

section \<open>Python string primitives used by implode.py\<close>

text \<open>
  Texts are lists of characters; a character is a code point below 256, so the line
  boundaries and the whitespace of Python's \<^verbatim>\<open>str\<close> are the ones of that range.
  Strings compare by code point, as Python's do.
\<close>

definition line_boundary :: "char \<Rightarrow> bool" where
  "line_boundary c \<longleftrightarrow>
     c = CHR 0x0A \<or> c = CHR 0x0B \<or> c = CHR 0x0C \<or> c = CHR 0x0D \<or>
     c = CHR 0x1C \<or> c = CHR 0x1D \<or> c = CHR 0x1E \<or> c = CHR 0x85"

definition isspace :: "char \<Rightarrow> bool" where
  "isspace c \<longleftrightarrow>
     c = CHR 0x09 \<or> c = CHR 0x0A \<or> c = CHR 0x0B \<or> c = CHR 0x0C \<or> c = CHR 0x0D \<or>
     c = CHR 0x1C \<or> c = CHR 0x1D \<or> c = CHR 0x1E \<or> c = CHR 0x1F \<or>
     c = CHR 0x20 \<or> c = CHR 0x85 \<or> c = CHR 0xA0"

text \<open>
  \<^verbatim>\<open>str.splitlines()\<close>: the lines without their terminators; a carriage return
  followed by a line feed is one terminator; the empty text has no line, and a
  terminator at the very end opens no further line.
\<close>

fun splitlines :: "string \<Rightarrow> string list" where
  "splitlines [] = []"
| "splitlines [c] = (if line_boundary c then [[]] else [[c]])"
| "splitlines (c # d # ds) =
     (if c = CHR 0x0D \<and> d = CHR 0x0A then [] # splitlines ds
      else if line_boundary c then [] # splitlines (d # ds)
      else (case splitlines (d # ds) of
              [] \<Rightarrow> [[c]]
            | l # ls \<Rightarrow> (c # l) # ls))"

text \<open>\<^verbatim>\<open>str.strip()\<close>, \<^verbatim>\<open>str.lstrip(chars)\<close>, \<^verbatim>\<open>sep.join(xs)\<close>,
  \<^verbatim>\<open>str.startswith(p)\<close> and \<^verbatim>\<open>str.replace(old, new)\<close>.\<close>

definition strip :: "string \<Rightarrow> string" where
  "strip s = rev (dropWhile isspace (rev (dropWhile isspace s)))"

definition lstrip :: "string \<Rightarrow> string \<Rightarrow> string" where
  "lstrip chars s = dropWhile (\<lambda>c. c \<in> set chars) s"

fun join :: "string \<Rightarrow> string list \<Rightarrow> string" where
  "join sep [] = []"
| "join sep [x] = x"
| "join sep (x # y # ys) = x @ sep @ join sep (y # ys)"

definition startswith :: "string \<Rightarrow> string \<Rightarrow> bool" where
  "startswith s p \<longleftrightarrow> take (length p) s = p"

function replace :: "string \<Rightarrow> string \<Rightarrow> string \<Rightarrow> string" where
  "replace old new [] = (if old = [] then new else [])"
| "replace old new (c # cs) =
     (if old = [] then new @ c # replace old new cs
      else if startswith (c # cs) old then new @ replace old new (drop (length old) (c # cs))
      else c # replace old new cs)"
  by pat_completeness auto
termination
  by (relation "measure (\<lambda>(old, new, s). length s)") auto

section \<open>Paths\<close>

text \<open>
  A file of the source directory: its final path component and the text that reading
  it returns. \<^verbatim>\<open>Path.stem\<close> is the name without its last suffix: the name is cut at
  its last dot unless that dot is the first or the last character.
\<close>

record path =
  name :: string
  contents :: string

fun rfind :: "char \<Rightarrow> string \<Rightarrow> nat option" where
  "rfind c [] = None"
| "rfind c (x # xs) =
     (case rfind c xs of
        Some i \<Rightarrow> Some (Suc i)
      | None \<Rightarrow> if x = c then Some 0 else None)"

definition stem :: "path \<Rightarrow> string" where
  "stem f =
     (case rfind (CHR ''.'') (name f) of
        Some i \<Rightarrow> if 0 < i \<and> Suc i < length (name f) then take i (name f) else name f
      | None \<Rightarrow> name f)"

section \<open>get_ordered_files\<close>

text \<open>
  The dictionary \<^verbatim>\<open>file_dict\<close> is an association list in insertion order: storing
  under a key already there replaces the value in place, as Python's \<^verbatim>\<open>dict\<close> does.
  The helper \<^verbatim>\<open>header_to_filename\<close> of the module \<^verbatim>\<open>constants\<close> is the parameter
  \<open>h2f\<close>.
\<close>

definition file_dict_of :: "path list \<Rightarrow> (string \<times> path) list" where
  "file_dict_of file_list = foldl (\<lambda>d f. AList.update (stem f) f d) [] file_list"

fun section_loop ::
  "(string \<Rightarrow> string) \<Rightarrow> string list \<Rightarrow> (string \<times> path) list \<Rightarrow> path list
     \<Rightarrow> (string \<times> path) list \<times> path list" where
  "section_loop h2f [] file_dict ordered_files = (file_dict, ordered_files)"
| "section_loop h2f (section_name # rest) file_dict ordered_files =
     (let filename = h2f section_name in
      case map_of file_dict filename of
        Some f \<Rightarrow> section_loop h2f rest (AList.delete filename file_dict) (ordered_files @ [f])
      | None \<Rightarrow> section_loop h2f rest file_dict ordered_files)"

definition get_ordered_files ::
  "(string \<Rightarrow> string) \<Rightarrow> path list \<Rightarrow> string list \<Rightarrow> path list" where
  "get_ordered_files h2f file_list section_globs_keys =
     (let file_dict = file_dict_of file_list;
          (file_dict', ordered_files) = section_loop h2f section_globs_keys file_dict [];
          remaining_files = sort_key name (map snd file_dict')
      in ordered_files @ remaining_files)"

section \<open>strip_yaml_frontmatter and strip_header\<close>

function frontmatter_loop :: "string list \<Rightarrow> nat \<Rightarrow> string option" where
  "frontmatter_loop lines i =
     (if i < length lines then
        (if strip (lines ! i) = ''---''
         then Some (lstrip ''\<newline>'' (join ''\<newline>'' (drop (i + 1) lines)))
         else frontmatter_loop lines (i + 1))
      else None)"
  by pat_completeness auto
termination
  by (relation "measure (\<lambda>(lines, i). length lines - i)") auto

declare frontmatter_loop.simps [simp del]

definition strip_yaml_frontmatter :: "string \<Rightarrow> string" where
  "strip_yaml_frontmatter txt =
     (let lines = splitlines txt in
      if lines \<noteq> [] \<and> strip (lines ! 0) = ''---'' then
        (case frontmatter_loop lines 1 of
           Some r \<Rightarrow> r
         | None \<Rightarrow> txt)
      else txt)"

fun skip_empty :: "string list \<Rightarrow> string list" where
  "skip_empty [] = []"
| "skip_empty (l # ls) = (if strip l = [] then skip_empty ls else l # ls)"

definition strip_header :: "string \<Rightarrow> string" where
  "strip_header txt =
     (let lines = splitlines txt in
      if lines \<noteq> [] \<and> startswith (lines ! 0) ''## '' then
        (let remaining_lines = skip_empty (drop 1 lines)
         in join ''\<newline>'' remaining_lines)
      else txt)"

section \<open>The bundlers\<close>

text \<open>
  The output file is the text written to it so far. The helper
  \<^verbatim>\<open>filename_to_header\<close> of the module \<^verbatim>\<open>constants\<close> is the parameter \<open>f2h\<close>, and
  the keys of \<^verbatim>\<open>SECTION_GLOBS\<close> are the parameter \<open>section_globs_keys\<close>. The result of
  the directory listing is the list of files given.
\<close>

fun cursor_loop :: "(string \<Rightarrow> string) \<Rightarrow> path list \<Rightarrow> string \<Rightarrow> string" where
  "cursor_loop f2h [] out = out"
| "cursor_loop f2h (rule_file # rest) out =
     (let content = strip (contents rule_file) in
      if content = [] then cursor_loop f2h rest out
      else
        (let content = strip_yaml_frontmatter content;
             content = strip_header content;
             header = f2h (stem rule_file);
             out = (if stem rule_file \<noteq> ''general''
                    then out @ ''## '' @ header @ ''\<newline>\<newline>'' else out);
             out = out @ content;
             out = out @ ''\<newline>\<newline>''
         in cursor_loop f2h rest out))"

definition bundle_cursor_rules ::
  "(string \<Rightarrow> string) \<Rightarrow> (string \<Rightarrow> string) \<Rightarrow> string list \<Rightarrow> path list \<Rightarrow> string" where
  "bundle_cursor_rules h2f f2h section_globs_keys rule_files =
     (let general = filter (\<lambda>f. stem f = ''general'') rule_files;
          others = filter (\<lambda>f. stem f \<noteq> ''general'') rule_files;
          ordered_others = get_ordered_files h2f others section_globs_keys;
          ordered = general @ ordered_others
      in cursor_loop f2h ordered [])"

fun github_loop :: "(string \<Rightarrow> string) \<Rightarrow> path list \<Rightarrow> string \<Rightarrow> string" where
  "github_loop f2h [] out = out"
| "github_loop f2h (instr_file # rest) out =
     (let content = strip (contents instr_file) in
      if content = [] then github_loop f2h rest out
      else
        (let content = strip_yaml_frontmatter content;
             content = strip_header content;
             header = f2h (replace ''.instructions'' [] (stem instr_file));
             out = out @ ''## '' @ header @ ''\<newline>\<newline>'';
             out = out @ content;
             out = out @ ''\<newline>\<newline>''
         in github_loop f2h rest out))"

text \<open>The file \<^verbatim>\<open>.github/copilot-instructions.md\<close> is \<open>None\<close> when it does not exist.\<close>

definition bundle_github_instructions ::
  "(string \<Rightarrow> string) \<Rightarrow> (string \<Rightarrow> string) \<Rightarrow> string list \<Rightarrow> string option \<Rightarrow> path list
     \<Rightarrow> string" where
  "bundle_github_instructions h2f f2h section_globs_keys copilot_general instr_files =
     (let ordered_files = get_ordered_files h2f instr_files section_globs_keys;
          out = (case copilot_general of
                   None \<Rightarrow> []
                 | Some raw \<Rightarrow>
                     (let content = strip raw in
                      if content \<noteq> [] then content @ ''\<newline>\<newline>'' else []))
      in github_loop f2h ordered_files out)"

section \<open>The helpers of the module constants\<close>

text \<open>
  Modelled from the spec: the module \<^verbatim>\<open>constants\<close> (\<^verbatim>\<open>header_to_filename\<close>,
  \<^verbatim>\<open>filename_to_header\<close>, \<^verbatim>\<open>SECTION_GLOBS\<close>) is not among the sources. The spec
  describes the two helpers as a reversible transform between title case with spaces
  and the dash-separated lowercase form; they are written here for ASCII letters.
\<close>

definition to_lower :: "char \<Rightarrow> char" where
  "to_lower c = (if CHR ''A'' \<le> c \<and> c \<le> CHR ''Z'' then char_of (of_char c + (32::nat)) else c)"

definition to_upper :: "char \<Rightarrow> char" where
  "to_upper c = (if CHR ''a'' \<le> c \<and> c \<le> CHR ''z'' then char_of (of_char c - (32::nat)) else c)"

fun title_case :: "bool \<Rightarrow> string \<Rightarrow> string" where
  "title_case b [] = []"
| "title_case b (c # cs) =
     (if c = CHR '' '' then c # title_case True cs
      else (if b then to_upper c else c) # title_case False cs)"

definition header_to_filename :: "string \<Rightarrow> string" where
  "header_to_filename h = map (\<lambda>c. if c = CHR '' '' then CHR ''-'' else to_lower c) h"

definition filename_to_header :: "string \<Rightarrow> string" where
  "filename_to_header f = title_case True (map (\<lambda>c. if c = CHR ''-'' then CHR '' '' else c) f)"

section \<open>Predicates of the specification\<close>

text \<open>
  A text opens with a delimiter line when its first line, trimmed, is the marker; it
  has a metadata block when a later line, trimmed, is the marker too; it opens with a
  header when its first line begins with the header prefix. The first
  non-blank line is the one the specification's wording of the header stripper
  refers to.
\<close>

definition opens_with_delimiter :: "string \<Rightarrow> bool" where
  "opens_with_delimiter txt =
     (case splitlines txt of [] \<Rightarrow> False | l # _ \<Rightarrow> strip l = ''---'')"

definition opens_with_header :: "string \<Rightarrow> bool" where
  "opens_with_header txt =
     (case splitlines txt of [] \<Rightarrow> False | l # _ \<Rightarrow> startswith l ''## '')"

definition has_frontmatter :: "string \<Rightarrow> bool" where
  "has_frontmatter txt =
     (case splitlines txt of
        [] \<Rightarrow> False
      | l # ls \<Rightarrow> strip l = ''---'' \<and> list_ex (\<lambda>m. strip m = ''---'') ls)"

definition first_nonblank_line :: "string \<Rightarrow> string option" where
  "first_nonblank_line txt = find (\<lambda>l. strip l \<noteq> []) (splitlines txt)"

section \<open>The two strippers\<close>

lemma frontmatter_loop_scan:
  "frontmatter_loop lines i =
     (case dropWhile (\<lambda>l. strip l \<noteq> ''---'') (drop i lines) of
        [] \<Rightarrow> None
      | d # post \<Rightarrow> Some (lstrip ''\<newline>'' (join ''\<newline>'' post)))"
proof (induction lines i rule: frontmatter_loop.induct)
  case (1 lines i)
  show ?case
  proof (cases "i < length lines")
    case False
    then show ?thesis by (simp add: frontmatter_loop.simps [of lines i])
  next
    case True
    then have d: "drop i lines = lines ! i # drop (Suc i) lines"
      by (simp add: Cons_nth_drop_Suc)
    show ?thesis
    proof (cases "strip (lines ! i) = ''---''")
      case True
      with \<open>i < length lines\<close> d show ?thesis
        by (simp add: frontmatter_loop.simps [of lines i])
    next
      case False
      with \<open>i < length lines\<close> d "1.IH" show ?thesis
        by (simp add: frontmatter_loop.simps [of lines i])
    qed
  qed
qed

lemma skip_empty_dropWhile: "skip_empty ls = dropWhile (\<lambda>l. strip l = []) ls"
  by (induction ls) auto

lemma strip_yaml_frontmatter_not_opening:
  "\<not> opens_with_delimiter txt \<Longrightarrow> strip_yaml_frontmatter txt = txt"
  by (auto simp: opens_with_delimiter_def strip_yaml_frontmatter_def Let_def split: list.splits)

lemma strip_header_not_opening:
  "\<not> opens_with_header txt \<Longrightarrow> strip_header txt = txt"
  by (auto simp: opens_with_header_def strip_header_def Let_def split: list.splits)

lemma length_strip: "length (strip s) \<le> length s"
proof -
  have "length (strip s) \<le> length (dropWhile isspace s)"
    unfolding strip_def using length_dropWhile_le [of isspace "rev (dropWhile isspace s)"] by simp
  also have "\<dots> \<le> length s"
    by (rule length_dropWhile_le)
  finally show ?thesis .
qed

lemma length_join_Cons: "length (join sep xs) \<le> length (join sep (x # xs))"
  by (cases xs) simp_all

lemma length_join_suffix: "length (join sep ys) \<le> length (join sep (xs @ ys))"
proof (induction xs)
  case Nil
  show ?case by simp
next
  case (Cons x xs)
  then show ?case
    using length_join_Cons [of sep "xs @ ys" x] by simp
qed

lemma length_join_first: "length x + length (join sep xs) \<le> length (join sep (x # xs))"
  by (cases xs) simp_all

lemma join_Cons_char: "join sep ((c # l) # ls) = c # join sep (l # ls)"
  by (cases ls) simp_all

lemma length_join_Nil: "length (join [s] ([] # xs)) \<le> Suc (length (join [s] xs))"
  by (cases xs) simp_all

lemma length_join_splitlines: "length (join [s] (splitlines txt)) \<le> length txt"
proof (induction "txt" rule: splitlines.induct)
  case 1
  show ?case by simp
next
  case (2 c)
  show ?case by simp
next
  case (3 c d ds)
  show ?case
  proof (cases "c = CHR 0x0D \<and> d = CHR 0x0A")
    case True
    with "3.IH"(1) length_join_Nil [of s "splitlines ds"] show ?thesis
      by simp
  next
    case crlf: False
    show ?thesis
    proof (cases "line_boundary c")
      case True
      with crlf "3.IH"(2) length_join_Nil [of s "splitlines (d # ds)"] show ?thesis
        by (auto simp del: join.simps)
    next
      case False
      with crlf "3.IH"(3) show ?thesis
        by (cases "splitlines (d # ds)") (auto simp add: join_Cons_char)
    qed
  qed
qed

lemma frontmatter_shrinks:
  assumes "has_frontmatter txt"
  shows "length (strip_yaml_frontmatter txt) < length txt"
proof -
  from assms obtain first rest where sl: "splitlines txt = first # rest"
    and f: "strip first = ''---''" and ex: "\<exists>m \<in> set rest. strip m = ''---''"
    by (auto simp: has_frontmatter_def list_ex_iff split: list.splits)
  from ex obtain pre d post where rest: "rest = pre @ d # post"
    and d: "strip d = ''---''" and pre: "\<forall>l \<in> set pre. strip l \<noteq> ''---''"
    using split_list_first_prop [of rest "\<lambda>m. strip m = ''---''"] by blast
  have dw: "dropWhile (\<lambda>l. strip l \<noteq> ''---'') (pre @ d # post) = d # post"
    using pre d by (simp add: dropWhile_append3)
  have "frontmatter_loop (first # pre @ d # post) 1
          = Some (lstrip ''\<newline>'' (join ''\<newline>'' post))"
    by (simp add: frontmatter_loop_scan dw)
  then have r: "strip_yaml_frontmatter txt = lstrip ''\<newline>'' (join ''\<newline>'' post)"
    using sl f rest by (simp add: strip_yaml_frontmatter_def)
  have "3 \<le> length first"
    using length_strip [of first] f by simp
  moreover have "length (lstrip ''\<newline>'' (join ''\<newline>'' post)) \<le> length (join ''\<newline>'' post)"
    unfolding lstrip_def by (rule length_dropWhile_le)
  moreover have "length (join ''\<newline>'' post) \<le> length (join ''\<newline>'' rest)"
    using length_join_suffix [of "''\<newline>''" post "pre @ [d]"] by (simp add: rest)
  moreover have "length first + length (join ''\<newline>'' rest) \<le> length (join ''\<newline>'' (splitlines txt))"
    unfolding sl by (rule length_join_first)
  moreover have "length (join ''\<newline>'' (splitlines txt)) \<le> length txt"
    by (rule length_join_splitlines)
  ultimately show ?thesis
    unfolding r by linarith
qed

lemma header_shrinks:
  assumes "opens_with_header txt"
  shows "length (strip_header txt) < length txt"
proof -
  from assms obtain first rest where sl: "splitlines txt = first # rest"
    and f: "startswith first ''## ''"
    by (auto simp: opens_with_header_def split: list.splits)
  have r: "strip_header txt = join ''\<newline>'' (dropWhile (\<lambda>l. strip l = []) rest)"
    using sl f by (simp add: strip_header_def skip_empty_dropWhile)
  have "3 \<le> length first"
  proof -
    from f have "take (length ''## '') first = ''## ''"
      by (simp only: startswith_def)
    then have "length (take (length ''## '') first) = length ''## ''"
      by simp
    then show ?thesis by simp
  qed
  moreover have "length (join ''\<newline>'' (dropWhile (\<lambda>l. strip l = []) rest)) \<le> length (join ''\<newline>'' rest)"
    using length_join_suffix [of "''\<newline>''" "dropWhile (\<lambda>l. strip l = []) rest"
        "takeWhile (\<lambda>l. strip l = []) rest"]
    by simp
  moreover have "length first + length (join ''\<newline>'' rest) \<le> length (join ''\<newline>'' (splitlines txt))"
    unfolding sl by (rule length_join_first)
  moreover have "length (join ''\<newline>'' (splitlines txt)) \<le> length txt"
    by (rule length_join_splitlines)
  ultimately show ?thesis
    unfolding r by linarith
qed

lemma strip_yaml_frontmatter_no_block:
  "\<not> has_frontmatter txt \<Longrightarrow> strip_yaml_frontmatter txt = txt"
proof (cases "splitlines txt")
  case Nil
  then show ?thesis by (simp add: strip_yaml_frontmatter_def)
next
  case (Cons first rest)
  assume "\<not> has_frontmatter txt"
  with Cons have "strip first \<noteq> ''---'' \<or> (\<forall>l \<in> set rest. strip l \<noteq> ''---'')"
    by (auto simp: has_frontmatter_def list_ex_iff)
  then show ?thesis
  proof
    assume "strip first \<noteq> ''---''"
    with Cons show ?thesis by (simp add: strip_yaml_frontmatter_def)
  next
    assume "\<forall>l \<in> set rest. strip l \<noteq> ''---''"
    then have dw: "dropWhile (\<lambda>l. strip l \<noteq> ''---'') rest = []"
      by (simp add: dropWhile_eq_Nil_conv)
    have "frontmatter_loop (first # rest) 1 = None"
      by (simp add: frontmatter_loop_scan dw)
    with Cons show ?thesis by (simp add: strip_yaml_frontmatter_def)
  qed
qed

lemma strip_yaml_frontmatter_fixed: "strip_yaml_frontmatter txt = txt \<longleftrightarrow> \<not> has_frontmatter txt"
  using frontmatter_shrinks [of "txt"] strip_yaml_frontmatter_no_block [of "txt"] by auto

lemma strip_header_fixed: "strip_header txt = txt \<longleftrightarrow> \<not> opens_with_header txt"
  using header_shrinks [of "txt"] strip_header_not_opening [of "txt"] by auto

text \<open>
  C10. A text whose first line is a delimiter line (trimmed, it is the marker) and
  none of whose later lines is a delimiter line comes back from the frontmatter
  stripper unchanged.
\<close>

theorem unterminated_frontmatter_unchanged:
  assumes "splitlines txt = first # rest" and "strip first = ''---''"
    and "\<forall>l \<in> set rest. strip l \<noteq> ''---''"
  shows "strip_yaml_frontmatter txt = txt"
proof -
  have dw: "dropWhile (\<lambda>l. strip l \<noteq> ''---'') rest = []"
    using assms(3) by (simp add: dropWhile_eq_Nil_conv)
  have "frontmatter_loop (first # rest) 1 = None"
    by (simp add: frontmatter_loop_scan dw)
  then show ?thesis
    using assms(1) by (simp add: strip_yaml_frontmatter_def)
qed

theorem unterminated_frontmatter_unchanged_witness:
  "splitlines ''---\<newline>a: 1\<newline>body'' = [''---'', ''a: 1'', ''body''] \<and>
   strip ''---'' = ''---'' \<and>
   strip ''a: 1'' \<noteq> ''---'' \<and> strip ''body'' \<noteq> ''---'' \<and>
   strip_yaml_frontmatter ''---\<newline>a: 1\<newline>body'' = ''---\<newline>a: 1\<newline>body''"
proof -
  have s: "splitlines ''---\<newline>a: 1\<newline>body'' = [''---'', ''a: 1'', ''body'']"
    by code_simp
  have f: "strip ''---'' = ''---''"
    by code_simp
  have r: "\<forall>l \<in> set [''a: 1'', ''body'']. strip l \<noteq> ''---''"
    by code_simp
  show ?thesis
    using s f r unterminated_frontmatter_unchanged [OF s f r] by simp
qed

text \<open>
  C5, as stated, fails: a first line that is the marker followed by a blank is not
  exactly the marker, and the stripper still discards the block.
\<close>

theorem frontmatter_exact_marker_counterexample:
  "hd (splitlines ''--- \<newline>x\<newline>---\<newline>y'') \<noteq> ''---'' \<and>
   strip_yaml_frontmatter ''--- \<newline>x\<newline>---\<newline>y'' = ''y'' \<and>
   strip_yaml_frontmatter ''--- \<newline>x\<newline>---\<newline>y'' \<noteq> ''--- \<newline>x\<newline>---\<newline>y''"
  by code_simp

text \<open>
  C5, amended. When the first line, trimmed of surrounding whitespace, is the marker
  and a later line, trimmed, is the marker too, the frontmatter stripper returns the
  lines after the first such later line, joined by line feeds, without leading line
  feeds. When the text has no line or its first line, trimmed, is not the marker, the
  text comes back unchanged.
\<close>

theorem strip_yaml_frontmatter_contract:
  "(splitlines txt = first # pre @ d # post \<and> strip first = ''---'' \<and>
      (\<forall>l \<in> set pre. strip l \<noteq> ''---'') \<and> strip d = ''---''
      \<longrightarrow> strip_yaml_frontmatter txt = lstrip ''\<newline>'' (join ''\<newline>'' post)) \<and>
   (\<not> opens_with_delimiter txt \<longrightarrow> strip_yaml_frontmatter txt = txt)"
proof (intro conjI impI)
  assume a: "splitlines txt = first # pre @ d # post \<and> strip first = ''---'' \<and>
      (\<forall>l \<in> set pre. strip l \<noteq> ''---'') \<and> strip d = ''---''"
  then have dw: "dropWhile (\<lambda>l. strip l \<noteq> ''---'') (pre @ d # post) = d # post"
    by (simp add: dropWhile_append3)
  have "frontmatter_loop (first # pre @ d # post) 1
          = Some (lstrip ''\<newline>'' (join ''\<newline>'' post))"
    by (simp add: frontmatter_loop_scan dw)
  with a show "strip_yaml_frontmatter txt = lstrip ''\<newline>'' (join ''\<newline>'' post)"
    by (simp add: strip_yaml_frontmatter_def)
next
  assume "\<not> opens_with_delimiter txt"
  then show "strip_yaml_frontmatter txt = txt"
    by (rule strip_yaml_frontmatter_not_opening)
qed

theorem strip_yaml_frontmatter_contract_witness:
  "(splitlines ''--- \<newline>x: 1\<newline>---\<newline>\<newline>Body'' = ''--- '' # [''x: 1''] @ ''---'' # ['''', ''Body''] \<and>
    strip ''--- '' = ''---'' \<and> strip ''x: 1'' \<noteq> ''---'' \<and> strip ''---'' = ''---'') \<and>
   strip_yaml_frontmatter ''--- \<newline>x: 1\<newline>---\<newline>\<newline>Body'' = ''Body'' \<and>
   \<not> opens_with_delimiter ''Body'' \<and>
   strip_yaml_frontmatter ''Body'' = ''Body''"
proof -
  have a: "splitlines ''--- \<newline>x: 1\<newline>---\<newline>\<newline>Body'' = ''--- '' # [''x: 1''] @ ''---'' # ['''', ''Body''] \<and>
    strip ''--- '' = ''---'' \<and> (\<forall>l \<in> set [''x: 1'']. strip l \<noteq> ''---'') \<and> strip ''---'' = ''---''"
    by code_simp
  have b: "\<not> opens_with_delimiter ''Body''"
    by code_simp
  have l: "lstrip ''\<newline>'' (join ''\<newline>'' ['''', ''Body'']) = ''Body''"
    by code_simp
  have "strip_yaml_frontmatter ''--- \<newline>x: 1\<newline>---\<newline>\<newline>Body'' = ''Body''"
    using strip_yaml_frontmatter_contract
      [of "''--- \<newline>x: 1\<newline>---\<newline>\<newline>Body''" "''--- ''" "[''x: 1'']" "''---''" "['''', ''Body'']"]
      a l by simp
  moreover have "strip_yaml_frontmatter ''Body'' = ''Body''"
    using strip_yaml_frontmatter_contract [of "''Body''"] b by simp
  ultimately show ?thesis
    using a b by simp
qed

text \<open>
  C4, as stated, fails: the stripper looks at the very first line only, so a header
  that is the first non-blank line but not the first line stays.
\<close>

theorem header_after_blank_line_counterexample:
  "first_nonblank_line ''\<newline>## A\<newline>x'' = Some ''## A'' \<and>
   startswith ''## A'' ''## '' \<and>
   strip_header ''\<newline>## A\<newline>x'' = ''\<newline>## A\<newline>x''"
  by code_simp

text \<open>
  C4, amended. When the very first line of the text begins with the header prefix, the
  header stripper returns the lines after it, without the blank lines that follow it
  immediately, joined by line feeds. Every other text comes back unchanged, also one
  where a header comes later.
\<close>

theorem strip_header_contract:
  "(splitlines txt = (''## '' @ title) # rest
      \<longrightarrow> strip_header txt = join ''\<newline>'' (dropWhile (\<lambda>l. strip l = []) rest)) \<and>
   (\<not> opens_with_header txt \<longrightarrow> strip_header txt = txt)"
proof (intro conjI impI)
  assume "splitlines txt = (''## '' @ title) # rest"
  then show "strip_header txt = join ''\<newline>'' (dropWhile (\<lambda>l. strip l = []) rest)"
    by (simp add: strip_header_def startswith_def skip_empty_dropWhile)
next
  assume "\<not> opens_with_header txt"
  then show "strip_header txt = txt"
    by (rule strip_header_not_opening)
qed

theorem strip_header_contract_witness:
  "splitlines ''## Topic\<newline>\<newline> \<newline>Body\<newline>## Later'' = (''## '' @ ''Topic'') # ['''', '' '', ''Body'', ''## Later''] \<and>
   strip_header ''## Topic\<newline>\<newline> \<newline>Body\<newline>## Later'' = ''Body\<newline>## Later'' \<and>
   \<not> opens_with_header ''Body\<newline>## Later'' \<and>
   strip_header ''Body\<newline>## Later'' = ''Body\<newline>## Later''"
proof -
  have a: "splitlines ''## Topic\<newline>\<newline> \<newline>Body\<newline>## Later'' = (''## '' @ ''Topic'') # ['''', '' '', ''Body'', ''## Later'']"
    by code_simp
  have b: "\<not> opens_with_header ''Body\<newline>## Later''"
    by code_simp
  have l: "join ''\<newline>'' (dropWhile (\<lambda>l. strip l = []) ['''', '' '', ''Body'', ''## Later'']) = ''Body\<newline>## Later''"
    by code_simp
  have "strip_header ''## Topic\<newline>\<newline> \<newline>Body\<newline>## Later'' = ''Body\<newline>## Later''"
    using strip_header_contract
      [of "''## Topic\<newline>\<newline> \<newline>Body\<newline>## Later''" "''Topic''" "['''', '' '', ''Body'', ''## Later'']"]
      a l by simp
  moreover have "strip_header ''Body\<newline>## Later'' = ''Body\<newline>## Later''"
    using strip_header_contract [of "''Body\<newline>## Later''"] b by simp
  ultimately show ?thesis
    using a b by simp
qed

text \<open>
  C3, as stated, fails for both strippers: a text with two metadata blocks loses one
  at each pass, and a text with two header lines loses one at each pass.
\<close>

theorem strippers_idempotent_counterexample:
  "strip_yaml_frontmatter (strip_yaml_frontmatter ''---\<newline>---\<newline>---\<newline>---\<newline>z'')
     \<noteq> strip_yaml_frontmatter ''---\<newline>---\<newline>---\<newline>---\<newline>z'' \<and>
   strip_header (strip_header ''## A\<newline>## B'') \<noteq> strip_header ''## A\<newline>## B''"
  by code_simp

text \<open>
  C3, amended. Running the frontmatter stripper again is a no-op exactly when the text
  it returned has no metadata block of its own (it does not open with a delimiter
  line that a later delimiter line closes); running the header stripper again is a
  no-op exactly when the text it returned does not open with a header line.
\<close>

theorem strippers_idempotent_when_stripped:
  "(strip_yaml_frontmatter (strip_yaml_frontmatter txt) = strip_yaml_frontmatter txt
      \<longleftrightarrow> \<not> has_frontmatter (strip_yaml_frontmatter txt)) \<and>
   (strip_header (strip_header txt) = strip_header txt
      \<longleftrightarrow> \<not> opens_with_header (strip_header txt))"
  by (simp add: strip_yaml_frontmatter_fixed strip_header_fixed)

theorem strippers_idempotent_when_stripped_witness:
  "\<not> has_frontmatter (strip_yaml_frontmatter ''---\<newline>a: 1\<newline>---\<newline>Body'') \<and>
   strip_yaml_frontmatter (strip_yaml_frontmatter ''---\<newline>a: 1\<newline>---\<newline>Body'')
     = strip_yaml_frontmatter ''---\<newline>a: 1\<newline>---\<newline>Body'' \<and>
   \<not> opens_with_header (strip_header ''## Topic\<newline>\<newline>Body'') \<and>
   strip_header (strip_header ''## Topic\<newline>\<newline>Body'') = strip_header ''## Topic\<newline>\<newline>Body''"
proof -
  have a: "\<not> has_frontmatter (strip_yaml_frontmatter ''---\<newline>a: 1\<newline>---\<newline>Body'')"
    by code_simp
  have b: "\<not> opens_with_header (strip_header ''## Topic\<newline>\<newline>Body'')"
    by code_simp
  show ?thesis
    using a b
      strippers_idempotent_when_stripped [of "''---\<newline>a: 1\<newline>---\<newline>Body''"]
      strippers_idempotent_when_stripped [of "''## Topic\<newline>\<newline>Body''"]
    by blast
qed

section \<open>The order of the files\<close>

lemma update_fresh: "k \<notin> fst ` set al \<Longrightarrow> AList.update k v al = al @ [(k, v)]"
  by (induction al) auto

lemma file_dict_fold:
  "distinct (map fst d @ map stem fs) \<Longrightarrow>
     foldl (\<lambda>d f. AList.update (stem f) f d) d fs = d @ map (\<lambda>f. (stem f, f)) fs"
proof (induction fs arbitrary: d)
  case Nil
  show ?case by simp
next
  case (Cons f fs)
  from Cons.prems have fresh: "stem f \<notin> fst ` set d"
    by auto
  from Cons.prems have "distinct (map fst (d @ [(stem f, f)]) @ map stem fs)"
    by auto
  then have "foldl (\<lambda>d f. AList.update (stem f) f d) (d @ [(stem f, f)]) fs
               = (d @ [(stem f, f)]) @ map (\<lambda>f. (stem f, f)) fs"
    by (rule Cons.IH)
  with fresh show ?case
    by (simp add: update_fresh)
qed

lemma file_dict_of_distinct:
  "distinct (map stem fs) \<Longrightarrow> file_dict_of fs = map (\<lambda>f. (stem f, f)) fs"
  using file_dict_fold [of "[]" fs] by (simp add: file_dict_of_def)

lemma section_loop_fst:
  "fst (section_loop h2f keys d acc) = filter (\<lambda>kv. fst kv \<notin> h2f ` set keys) d"
proof (induction keys arbitrary: d acc)
  case Nil
  show ?case by simp
next
  case (Cons s keys)
  show ?case
  proof (cases "map_of d (h2f s)")
    case None
    then have "h2f s \<notin> fst ` set d"
      by (simp add: map_of_eq_None_iff)
    then have "filter (\<lambda>kv. fst kv \<notin> h2f ` set (s # keys)) d
                 = filter (\<lambda>kv. fst kv \<notin> h2f ` set keys) d"
      by (intro filter_cong refl) (force simp: image_iff)
    with None Cons.IH [of d acc] show ?thesis
      by simp
  next
    case (Some f)
    have "filter (\<lambda>kv. fst kv \<notin> h2f ` set keys) (AList.delete (h2f s) d)
            = filter (\<lambda>kv. fst kv \<notin> h2f ` set (s # keys)) d"
      by (induction d) auto
    with Some Cons.IH [of "AList.delete (h2f s) d" "acc @ [f]"] show ?thesis
      by simp
  qed
qed

lemma section_loop_snd_sub:
  "\<exists>matched. snd (section_loop h2f keys d acc) = acc @ matched \<and>
     (\<forall>f \<in> set matched. \<exists>k \<in> set keys. map_of d (h2f k) = Some f)"
proof (induction keys arbitrary: d acc)
  case Nil
  show ?case by simp
next
  case (Cons s keys)
  show ?case
  proof (cases "map_of d (h2f s)")
    case None
    with Cons.IH [of d acc] show ?thesis
      by auto
  next
    case (Some f)
    from Cons.IH [of "AList.delete (h2f s) d" "acc @ [f]"]
    obtain m where m: "snd (section_loop h2f keys (AList.delete (h2f s) d) (acc @ [f]))
                         = (acc @ [f]) @ m"
      and sub: "\<forall>g \<in> set m. \<exists>k \<in> set keys. map_of (AList.delete (h2f s) d) (h2f k) = Some g"
      by blast
    have "\<forall>g \<in> set (f # m). \<exists>k \<in> set (s # keys). map_of d (h2f k) = Some g"
    proof
      fix g assume "g \<in> set (f # m)"
      then consider "g = f" | "g \<in> set m" by auto
      then show "\<exists>k \<in> set (s # keys). map_of d (h2f k) = Some g"
      proof cases
        case 1
        with Some show ?thesis by simp
      next
        case 2
        with sub obtain k where "k \<in> set keys"
          and "map_of (AList.delete (h2f s) d) (h2f k) = Some g"
          by blast
        then have "map_of d (h2f k) = Some g"
          by (simp add: AList.delete_conv' split: if_splits)
        with \<open>k \<in> set keys\<close> show ?thesis by auto
      qed
    qed
    moreover have "snd (section_loop h2f (s # keys) d acc) = acc @ f # m"
      using Some m by simp
    ultimately show ?thesis by blast
  qed
qed


lemma map_of_stems:
  "distinct (map stem fs) \<Longrightarrow>
     map_of (map (\<lambda>f. (stem f, f)) fs) s = Some f \<longleftrightarrow> f \<in> set fs \<and> stem f = s"
  by (induction fs) (auto simp: image_iff)


lemma remaining_files:
  "distinct (map stem fs) \<Longrightarrow>
     map snd (fst (section_loop h2f keys (file_dict_of fs) acc))
       = filter (\<lambda>f. stem f \<notin> h2f ` set keys) fs"
  by (simp add: section_loop_fst file_dict_of_distinct filter_map comp_def)



text \<open>
  C2, as stated, fails: the files left over are sorted by their whole name, suffix
  included, and not by their stem. The stem \<open>a\<close> is below the stem \<open>a-b\<close>, and the name
  \<open>a.mdc\<close> is above the name \<open>a-b.mdc\<close>.
\<close>

theorem remaining_sorted_by_stem_counterexample:
  "map stem (get_ordered_files header_to_filename
     [\<lparr>name = ''a.mdc'', contents = ''A''\<rparr>, \<lparr>name = ''a-b.mdc'', contents = ''B''\<rparr>] [])
     = [''a-b'', ''a''] \<and> ''a'' < ''a-b'' \<and>
   \<not> sorted (map stem (get_ordered_files header_to_filename
     [\<lparr>name = ''a.mdc'', contents = ''A''\<rparr>, \<lparr>name = ''a-b.mdc'', contents = ''B''\<rparr>] []))"
  by code_simp

text \<open>
  C2, amended. When the stems of the files are distinct, the result of the ordering
  function is the matched files followed by the files whose stem is the file name of
  no canonical entry, and these come each once, in ascending order of their file
  name (suffix included).
\<close>

theorem remaining_files_sorted_by_name:
  assumes "distinct (map stem file_list)"
  shows "\<exists>matched rest.
     get_ordered_files h2f file_list section_globs_keys = matched @ rest \<and>
     (\<forall>f \<in> set matched. stem f \<in> h2f ` set section_globs_keys) \<and>
     set rest = {f \<in> set file_list. stem f \<notin> h2f ` set section_globs_keys} \<and>
     distinct rest \<and> sorted (map name rest)"
proof -
  define d where "d = file_dict_of file_list"
  define rest where "rest = sort_key name (map snd (fst (section_loop h2f section_globs_keys d [])))"
  obtain matched where m: "snd (section_loop h2f section_globs_keys d []) = matched"
    and sub: "\<forall>f \<in> set matched. \<exists>k \<in> set section_globs_keys. map_of d (h2f k) = Some f"
    using section_loop_snd_sub [of h2f section_globs_keys d "[]"] by auto
  have eq: "get_ordered_files h2f file_list section_globs_keys = matched @ rest"
    using m by (simp add: get_ordered_files_def d_def rest_def Let_def case_prod_beta)
  have r: "rest = sort_key name (filter (\<lambda>f. stem f \<notin> h2f ` set section_globs_keys) file_list)"
    using assms by (simp add: rest_def d_def remaining_files)
  have "distinct file_list"
    using assms by (rule distinct_map [THEN iffD1, THEN conjunct1])
  then have "distinct rest"
    by (simp add: r)
  moreover have "set rest = {f \<in> set file_list. stem f \<notin> h2f ` set section_globs_keys}"
    by (auto simp: r)
  moreover have "sorted (map name rest)"
    by (simp add: r)
  moreover have "\<forall>f \<in> set matched. stem f \<in> h2f ` set section_globs_keys"
    using sub assms by (auto simp: d_def file_dict_of_distinct map_of_stems)
  ultimately show ?thesis
    using eq by blast
qed

theorem remaining_files_sorted_by_name_witness:
  "distinct (map stem
     [\<lparr>name = ''b-topic.mdc'', contents = ''B''\<rparr>, \<lparr>name = ''a.mdc'', contents = ''A''\<rparr>,
      \<lparr>name = ''python.mdc'', contents = ''P''\<rparr>, \<lparr>name = ''a-b.mdc'', contents = ''AB''\<rparr>,
      \<lparr>name = ''react.mdc'', contents = ''R''\<rparr>]) \<and>
   (\<exists>matched rest.
      get_ordered_files header_to_filename
        [\<lparr>name = ''b-topic.mdc'', contents = ''B''\<rparr>, \<lparr>name = ''a.mdc'', contents = ''A''\<rparr>,
      \<lparr>name = ''python.mdc'', contents = ''P''\<rparr>, \<lparr>name = ''a-b.mdc'', contents = ''AB''\<rparr>,
      \<lparr>name = ''react.mdc'', contents = ''R''\<rparr>]
        [''React'', ''Shell'', ''Python''] = matched @ rest \<and>
      (\<forall>f \<in> set matched. stem f \<in> header_to_filename ` set [''React'', ''Shell'', ''Python'']) \<and>
      set rest = {f \<in> set
        [\<lparr>name = ''b-topic.mdc'', contents = ''B''\<rparr>, \<lparr>name = ''a.mdc'', contents = ''A''\<rparr>,
      \<lparr>name = ''python.mdc'', contents = ''P''\<rparr>, \<lparr>name = ''a-b.mdc'', contents = ''AB''\<rparr>,
      \<lparr>name = ''react.mdc'', contents = ''R''\<rparr>].
        stem f \<notin> header_to_filename ` set [''React'', ''Shell'', ''Python'']} \<and>
      distinct rest \<and> sorted (map name rest))"
proof -
  have a: "distinct (map stem
     [\<lparr>name = ''b-topic.mdc'', contents = ''B''\<rparr>, \<lparr>name = ''a.mdc'', contents = ''A''\<rparr>,
      \<lparr>name = ''python.mdc'', contents = ''P''\<rparr>, \<lparr>name = ''a-b.mdc'', contents = ''AB''\<rparr>,
      \<lparr>name = ''react.mdc'', contents = ''R''\<rparr>])"
    by code_simp
  show ?thesis
    using a remaining_files_sorted_by_name [OF a, of header_to_filename "[''React'', ''Shell'', ''Python'']"] by blast
qed

section \<open>What the bundlers write\<close>

lemma cursor_loop_append:
  "cursor_loop f2h (xs @ ys) out = cursor_loop f2h ys (cursor_loop f2h xs out)"
  by (induction xs arbitrary: out) (simp_all add: Let_def)

lemma github_loop_append:
  "github_loop f2h (xs @ ys) out = github_loop f2h ys (github_loop f2h xs out)"
  by (induction xs arbitrary: out) (simp_all add: Let_def)

lemma cursor_loop_out: "cursor_loop f2h xs out = out @ cursor_loop f2h xs []"
proof (induction xs arbitrary: out)
  case Nil
  show ?case by simp
next
  case (Cons x xs)
  show ?case
  proof (cases "strip (contents x) = []")
    case True
    then show ?thesis using Cons.IH [of out] by simp
  next
    case False
    define w where "w =
      (if stem x \<noteq> ''general'' then ''## '' @ f2h (stem x) @ ''\<newline>\<newline>'' else []) @
      strip_header (strip_yaml_frontmatter (strip (contents x))) @ ''\<newline>\<newline>''"
    have "cursor_loop f2h (x # xs) out = cursor_loop f2h xs (out @ w)"
      using False by (simp add: Let_def w_def)
    moreover have "cursor_loop f2h (x # xs) [] = cursor_loop f2h xs w"
      using False by (simp add: Let_def w_def)
    ultimately show ?thesis
      using Cons.IH [of "out @ w"] Cons.IH [of w] by simp
  qed
qed

lemma github_loop_out: "github_loop f2h xs out = out @ github_loop f2h xs []"
proof (induction xs arbitrary: out)
  case Nil
  show ?case by simp
next
  case (Cons x xs)
  show ?case
  proof (cases "strip (contents x) = []")
    case True
    then show ?thesis using Cons.IH [of out] by simp
  next
    case False
    define w where "w =
      ''## '' @ f2h (replace ''.instructions'' [] (stem x)) @ ''\<newline>\<newline>'' @
      strip_header (strip_yaml_frontmatter (strip (contents x))) @ ''\<newline>\<newline>''"
    have "github_loop f2h (x # xs) out = github_loop f2h xs (out @ w)"
      using False by (simp add: Let_def w_def)
    moreover have "github_loop f2h (x # xs) [] = github_loop f2h xs w"
      using False by (simp add: Let_def w_def)
    ultimately show ?thesis
      using Cons.IH [of "out @ w"] Cons.IH [of w] by simp
  qed
qed

lemma cursor_loop_skip:
  "\<forall>f \<in> set xs. strip (contents f) = [] \<Longrightarrow> cursor_loop f2h (xs @ ys) out = cursor_loop f2h ys out"
  by (induction xs) simp_all

lemma map_of_filter_snd:
  assumes "distinct (map fst d)"
  shows "map_of (filter (\<lambda>kv. P (snd kv)) d) k =
           (case map_of d k of Some v \<Rightarrow> if P v then Some v else None | None \<Rightarrow> None)"
  using assms
proof (induction d)
  case Nil
  show ?case by simp
next
  case (Cons kv d)
  then have ih: "map_of (filter (\<lambda>kv. P (snd kv)) d) k =
           (case map_of d k of Some v \<Rightarrow> if P v then Some v else None | None \<Rightarrow> None)"
    by simp
  show ?case
  proof (cases "fst kv = k")
    case False
    with ih show ?thesis by simp
  next
    case True
    with Cons.prems have "k \<notin> fst ` set d"
      by auto
    then have "map_of d k = None"
      by (simp add: map_of_eq_None_iff)
    with True ih show ?thesis
      by simp
  qed
qed

lemma delete_filter_snd:
  "AList.delete k (filter (\<lambda>kv. P (snd kv)) d) = filter (\<lambda>kv. P (snd kv)) (AList.delete k d)"
  by (induction d) auto

lemma filter_delete_dropped:
  assumes "distinct (map fst d)" and "map_of d k = Some v" and "\<not> P v"
  shows "filter (\<lambda>kv. P (snd kv)) (AList.delete k d) = filter (\<lambda>kv. P (snd kv)) d"
  using assms
proof (induction d)
  case Nil
  show ?case by simp
next
  case (Cons kv d)
  show ?case
  proof (cases "fst kv = k")
    case True
    with Cons.prems have "k \<notin> fst ` set d" and "snd kv = v"
      by auto
    with True Cons.prems(3) show ?thesis
      by simp
  next
    case False
    with Cons show ?thesis
      by simp
  qed
qed

lemma section_loop_filter:
  assumes "distinct (map fst d)"
  shows "section_loop h2f keys (filter (\<lambda>kv. P (snd kv)) d) (filter P acc) =
           (filter (\<lambda>kv. P (snd kv)) (fst (section_loop h2f keys d acc)),
            filter P (snd (section_loop h2f keys d acc)))"
  using assms
proof (induction keys arbitrary: d acc)
  case Nil
  show ?case by simp
next
  case (Cons s keys)
  note lk = map_of_filter_snd [OF Cons.prems, of P "h2f s"]
  show ?case
  proof (cases "map_of d (h2f s)")
    case None
    with lk Cons.IH [OF Cons.prems, of acc] show ?thesis
      by (simp add: Let_def)
  next
    case (Some f)
    have dd: "distinct (map fst (AList.delete (h2f s) d))"
      using Cons.prems by (rule distinct_delete)
    show ?thesis
    proof (cases "P f")
      case True
      with Some lk Cons.IH [OF dd, of "acc @ [f]"] show ?thesis
        by (simp add: delete_filter_snd Let_def)
    next
      case False
      with Some lk Cons.IH [OF dd, of "acc @ [f]"]
        filter_delete_dropped [of d "h2f s" f P, OF Cons.prems Some False]
      show ?thesis
        by (simp add: Let_def)
    qed
  qed
qed

lemma get_ordered_files_filter:
  assumes "distinct (map stem fs)"
  shows "get_ordered_files h2f (filter P fs) keys = filter P (get_ordered_files h2f fs keys)"
proof -
  define d where "d = map (\<lambda>f. (stem f, f)) fs"
  have d: "file_dict_of fs = d"
    using assms by (simp add: d_def file_dict_of_distinct)
  have "distinct (map stem (filter P fs))"
    using assms by (rule distinct_map_filter)
  then have d': "file_dict_of (filter P fs) = filter (\<lambda>kv. P (snd kv)) d"
    by (simp add: d_def file_dict_of_distinct filter_map comp_def)
  have "distinct (map fst d)"
    using assms by (simp add: d_def comp_def)
  then have "section_loop h2f keys (filter (\<lambda>kv. P (snd kv)) d) [] =
      (filter (\<lambda>kv. P (snd kv)) (fst (section_loop h2f keys d [])),
       filter P (snd (section_loop h2f keys d [])))"
    using section_loop_filter [of d h2f keys P "[]"] by simp
  then show ?thesis
    by (simp add: get_ordered_files_def d d' Let_def case_prod_beta filter_sort filter_map comp_def)
qed

lemma cursor_loop_filter:
  "cursor_loop f2h (filter (\<lambda>f. strip (contents f) \<noteq> []) xs) out = cursor_loop f2h xs out"
  by (induction xs arbitrary: out) (simp_all add: Let_def)

lemma github_loop_filter:
  "github_loop f2h (filter (\<lambda>f. strip (contents f) \<noteq> []) xs) out = github_loop f2h xs out"
  by (induction xs arbitrary: out) (simp_all add: Let_def)

lemma find_split:
  "find P xs = Some g \<Longrightarrow> \<exists>pre post. xs = pre @ g # post \<and> P g \<and> (\<forall>x \<in> set pre. \<not> P x)"
proof (induction xs)
  case Nil
  then show ?case by simp
next
  case (Cons x xs)
  show ?case
  proof (cases "P x")
    case True
    with Cons.prems have "x = g" by simp
    with True have "x # xs = [] @ g # xs \<and> P g \<and> (\<forall>y \<in> set []. \<not> P y)" by simp
    then show ?thesis by blast
  next
    case False
    with Cons obtain pre post where "xs = pre @ g # post \<and> P g \<and> (\<forall>y \<in> set pre. \<not> P y)"
      by auto
    with False have "x # xs = (x # pre) @ g # post \<and> P g \<and> (\<forall>y \<in> set (x # pre). \<not> P y)"
      by simp
    then show ?thesis by blast
  qed
qed

text \<open>
  C1, as stated, fails in both modes: the bundler tests for emptiness after trimming
  the whitespace and before the two strippers, so a fragment that is only a header
  line gets its title and its separator.
\<close>

theorem fragment_empty_after_strippers_counterexample:
  "strip_header (strip_yaml_frontmatter (strip ''## A Topic'')) = [] \<and>
   bundle_cursor_rules header_to_filename filename_to_header []
     [\<lparr>name = ''a-topic.mdc'', contents = ''## A Topic''\<rparr>] = ''## A Topic\<newline>\<newline>\<newline>\<newline>'' \<and>
   bundle_github_instructions header_to_filename filename_to_header [] None
     [\<lparr>name = ''a-topic.instructions.md'', contents = ''## A Topic''\<rparr>] = ''## A Topic\<newline>\<newline>\<newline>\<newline>''"
  by code_simp

text \<open>
  C1, amended. For a fragment whose content is empty once the surrounding whitespace
  is trimmed, the bundler writes nothing, in both modes. Wherever the fragment stands
  in the order, the loop leaves the output as it is without it; and when the stems of
  the files are distinct, the bundler writes what it writes for the same directory
  without the blank fragments (in github mode, also without a blank general file).
\<close>

theorem blank_fragment_writes_nothing:
  "(strip (contents f) = [] \<longrightarrow>
      cursor_loop f2h (before @ f # after) out = cursor_loop f2h (before @ after) out \<and>
      github_loop f2h (before @ f # after) out = github_loop f2h (before @ after) out) \<and>
   (distinct (map stem files) \<longrightarrow>
      bundle_cursor_rules h2f f2h section_globs_keys files =
        bundle_cursor_rules h2f f2h section_globs_keys
          (filter (\<lambda>f. strip (contents f) \<noteq> []) files) \<and>
      bundle_github_instructions h2f f2h section_globs_keys copilot_general files =
        bundle_github_instructions h2f f2h section_globs_keys
          (case copilot_general of
             None \<Rightarrow> None
           | Some raw \<Rightarrow> if strip raw = [] then None else Some raw)
          (filter (\<lambda>f. strip (contents f) \<noteq> []) files))"
proof (intro conjI impI)
  assume "strip (contents f) = []"
  then show "cursor_loop f2h (before @ f # after) out = cursor_loop f2h (before @ after) out"
    by (simp add: cursor_loop_append)
next
  assume "strip (contents f) = []"
  then show "github_loop f2h (before @ f # after) out = github_loop f2h (before @ after) out"
    by (simp add: github_loop_append)
next
  let ?nb = "\<lambda>f. strip (contents f) \<noteq> []"
  let ?g = "\<lambda>f. stem f = ''general''"
  let ?o = "\<lambda>f. stem f \<noteq> ''general''"
  assume "distinct (map stem files)"
  then have "distinct (map stem (filter ?o files))"
    by (rule distinct_map_filter)
  then have o: "get_ordered_files h2f (filter ?nb (filter ?o files)) section_globs_keys
               = filter ?nb (get_ordered_files h2f (filter ?o files) section_globs_keys)"
    by (rule get_ordered_files_filter)
  have sw: "filter ?g (filter ?nb files) = filter ?nb (filter ?g files)"
    "filter ?o (filter ?nb files) = filter ?nb (filter ?o files)"
    by (simp_all add: conj_commute)
  have "bundle_cursor_rules h2f f2h section_globs_keys (filter ?nb files)
          = cursor_loop f2h (filter ?nb
              (filter ?g files @ get_ordered_files h2f (filter ?o files) section_globs_keys)) []"
    unfolding bundle_cursor_rules_def Let_def sw o by simp
  also have "\<dots> = bundle_cursor_rules h2f f2h section_globs_keys files"
    unfolding bundle_cursor_rules_def Let_def by (rule cursor_loop_filter)
  finally show "bundle_cursor_rules h2f f2h section_globs_keys files =
           bundle_cursor_rules h2f f2h section_globs_keys (filter ?nb files)"
    by simp
next
  assume d: "distinct (map stem files)"
  show "bundle_github_instructions h2f f2h section_globs_keys copilot_general files =
           bundle_github_instructions h2f f2h section_globs_keys
             (case copilot_general of
                None \<Rightarrow> None
              | Some raw \<Rightarrow> if strip raw = [] then None else Some raw)
             (filter (\<lambda>f. strip (contents f) \<noteq> []) files)"
    by (simp add: bundle_github_instructions_def Let_def get_ordered_files_filter [OF d]
        github_loop_filter split: option.splits)
qed

theorem blank_fragment_writes_nothing_witness:
  "strip (contents \<lparr>name = ''empty.mdc'', contents = '' \<newline>''\<rparr>) = [] \<and>
   cursor_loop filename_to_header
     ([\<lparr>name = ''b.mdc'', contents = ''B''\<rparr>] @ \<lparr>name = ''empty.mdc'', contents = '' \<newline>''\<rparr> #
      [\<lparr>name = ''a.mdc'', contents = ''A''\<rparr>]) [] =
   cursor_loop filename_to_header
     ([\<lparr>name = ''b.mdc'', contents = ''B''\<rparr>] @ [\<lparr>name = ''a.mdc'', contents = ''A''\<rparr>]) [] \<and>
   github_loop filename_to_header
     ([\<lparr>name = ''b.mdc'', contents = ''B''\<rparr>] @ \<lparr>name = ''empty.mdc'', contents = '' \<newline>''\<rparr> #
      [\<lparr>name = ''a.mdc'', contents = ''A''\<rparr>]) [] =
   github_loop filename_to_header
     ([\<lparr>name = ''b.mdc'', contents = ''B''\<rparr>] @ [\<lparr>name = ''a.mdc'', contents = ''A''\<rparr>]) [] \<and>
   distinct (map stem
     [\<lparr>name = ''b.mdc'', contents = ''B''\<rparr>, \<lparr>name = ''empty.mdc'', contents = '' \<newline>''\<rparr>,
      \<lparr>name = ''a.mdc'', contents = ''A''\<rparr>]) \<and>
   bundle_cursor_rules header_to_filename filename_to_header [''A'']
     [\<lparr>name = ''b.mdc'', contents = ''B''\<rparr>, \<lparr>name = ''empty.mdc'', contents = '' \<newline>''\<rparr>,
      \<lparr>name = ''a.mdc'', contents = ''A''\<rparr>] =
   bundle_cursor_rules header_to_filename filename_to_header [''A'']
     [\<lparr>name = ''b.mdc'', contents = ''B''\<rparr>, \<lparr>name = ''a.mdc'', contents = ''A''\<rparr>] \<and>
   bundle_github_instructions header_to_filename filename_to_header [''A''] (Some '' '')
     [\<lparr>name = ''b.mdc'', contents = ''B''\<rparr>, \<lparr>name = ''empty.mdc'', contents = '' \<newline>''\<rparr>,
      \<lparr>name = ''a.mdc'', contents = ''A''\<rparr>] =
   bundle_github_instructions header_to_filename filename_to_header [''A''] None
     [\<lparr>name = ''b.mdc'', contents = ''B''\<rparr>, \<lparr>name = ''a.mdc'', contents = ''A''\<rparr>]"
proof -
  have e: "strip (contents \<lparr>name = ''empty.mdc'', contents = '' \<newline>''\<rparr>) = []"
    by code_simp
  have d: "distinct (map stem
     [\<lparr>name = ''b.mdc'', contents = ''B''\<rparr>, \<lparr>name = ''empty.mdc'', contents = '' \<newline>''\<rparr>,
      \<lparr>name = ''a.mdc'', contents = ''A''\<rparr>])"
    by code_simp
  have f: "filter (\<lambda>f. strip (contents f) \<noteq> [])
     [\<lparr>name = ''b.mdc'', contents = ''B''\<rparr>, \<lparr>name = ''empty.mdc'', contents = '' \<newline>''\<rparr>,
      \<lparr>name = ''a.mdc'', contents = ''A''\<rparr>] =
     [\<lparr>name = ''b.mdc'', contents = ''B''\<rparr>, \<lparr>name = ''a.mdc'', contents = ''A''\<rparr>]"
    by code_simp
  have g: "strip '' '' = []"
    by code_simp
  note t = blank_fragment_writes_nothing
    [of "\<lparr>name = ''empty.mdc'', contents = '' \<newline>''\<rparr>" filename_to_header
      "[\<lparr>name = ''b.mdc'', contents = ''B''\<rparr>]" "[\<lparr>name = ''a.mdc'', contents = ''A''\<rparr>]" "[]"
      "[\<lparr>name = ''b.mdc'', contents = ''B''\<rparr>, \<lparr>name = ''empty.mdc'', contents = '' \<newline>''\<rparr>,
        \<lparr>name = ''a.mdc'', contents = ''A''\<rparr>]"
      header_to_filename "[''A'']" "Some '' ''"]
  from t e have p: "cursor_loop filename_to_header
     ([\<lparr>name = ''b.mdc'', contents = ''B''\<rparr>] @ \<lparr>name = ''empty.mdc'', contents = '' \<newline>''\<rparr> #
      [\<lparr>name = ''a.mdc'', contents = ''A''\<rparr>]) [] =
   cursor_loop filename_to_header
     ([\<lparr>name = ''b.mdc'', contents = ''B''\<rparr>] @ [\<lparr>name = ''a.mdc'', contents = ''A''\<rparr>]) [] \<and>
   github_loop filename_to_header
     ([\<lparr>name = ''b.mdc'', contents = ''B''\<rparr>] @ \<lparr>name = ''empty.mdc'', contents = '' \<newline>''\<rparr> #
      [\<lparr>name = ''a.mdc'', contents = ''A''\<rparr>]) [] =
   github_loop filename_to_header
     ([\<lparr>name = ''b.mdc'', contents = ''B''\<rparr>] @ [\<lparr>name = ''a.mdc'', contents = ''A''\<rparr>]) []"
    by blast
  from t d have q: "bundle_cursor_rules header_to_filename filename_to_header [''A'']
     [\<lparr>name = ''b.mdc'', contents = ''B''\<rparr>, \<lparr>name = ''empty.mdc'', contents = '' \<newline>''\<rparr>,
      \<lparr>name = ''a.mdc'', contents = ''A''\<rparr>] =
   bundle_cursor_rules header_to_filename filename_to_header [''A'']
     (filter (\<lambda>f. strip (contents f) \<noteq> [])
       [\<lparr>name = ''b.mdc'', contents = ''B''\<rparr>, \<lparr>name = ''empty.mdc'', contents = '' \<newline>''\<rparr>,
        \<lparr>name = ''a.mdc'', contents = ''A''\<rparr>]) \<and>
   bundle_github_instructions header_to_filename filename_to_header [''A''] (Some '' '')
     [\<lparr>name = ''b.mdc'', contents = ''B''\<rparr>, \<lparr>name = ''empty.mdc'', contents = '' \<newline>''\<rparr>,
      \<lparr>name = ''a.mdc'', contents = ''A''\<rparr>] =
   bundle_github_instructions header_to_filename filename_to_header [''A'']
     (case Some '' '' of None \<Rightarrow> None | Some raw \<Rightarrow> if strip raw = [] then None else Some raw)
     (filter (\<lambda>f. strip (contents f) \<noteq> [])
       [\<lparr>name = ''b.mdc'', contents = ''B''\<rparr>, \<lparr>name = ''empty.mdc'', contents = '' \<newline>''\<rparr>,
        \<lparr>name = ''a.mdc'', contents = ''A''\<rparr>])"
    by blast
  have c: "(case Some '' '' of None \<Rightarrow> None
            | Some raw \<Rightarrow> if strip raw = [] then None else Some raw) = None"
    by (simp add: g)
  show ?thesis
    using e d p q [unfolded f c] by blast
qed

text \<open>
  C7. In cursor mode the output begins with the body of the general fragment (the
  first file of stem \<open>general\<close> whose trimmed content is not empty) and its separator;
  in github mode, when the general file exists and its trimmed content is not empty,
  the output begins with that content and its separator. Nothing, so no title line,
  is written before it.
\<close>

theorem general_fragment_first:
  "(find (\<lambda>f. stem f = ''general'' \<and> strip (contents f) \<noteq> []) rule_files = Some g \<longrightarrow>
      (\<exists>rest. bundle_cursor_rules h2f f2h section_globs_keys rule_files =
         strip_header (strip_yaml_frontmatter (strip (contents g))) @ ''\<newline>\<newline>'' @ rest)) \<and>
   (strip raw \<noteq> [] \<longrightarrow>
      (\<exists>rest. bundle_github_instructions h2f f2h section_globs_keys (Some raw) instr_files =
         strip raw @ ''\<newline>\<newline>'' @ rest))"
proof (intro conjI impI)
  assume "find (\<lambda>f. stem f = ''general'' \<and> strip (contents f) \<noteq> []) rule_files = Some g"
  then obtain pre post where s: "rule_files = pre @ g # post"
    and g: "stem g = ''general''" "strip (contents g) \<noteq> []"
    and pre: "\<forall>x \<in> set pre. \<not> (stem x = ''general'' \<and> strip (contents x) \<noteq> [])"
    using find_split [of "\<lambda>f. stem f = ''general'' \<and> strip (contents f) \<noteq> []" rule_files g]
    by blast
  define body where "body = strip_header (strip_yaml_frontmatter (strip (contents g)))"
  define general where "general = filter (\<lambda>f. stem f = ''general'') pre"
  define later where "later = filter (\<lambda>f. stem f = ''general'') post @
    get_ordered_files h2f (filter (\<lambda>f. stem f \<noteq> ''general'') rule_files) section_globs_keys"
  have e: "\<forall>f \<in> set general. strip (contents f) = []"
    using pre by (auto simp: general_def)
  have "bundle_cursor_rules h2f f2h section_globs_keys rule_files
          = cursor_loop f2h (general @ g # later) []"
    using g(1) by (simp add: bundle_cursor_rules_def Let_def s general_def later_def)
  also have "\<dots> = cursor_loop f2h (g # later) []"
    using e by (rule cursor_loop_skip)
  also have "\<dots> = cursor_loop f2h later (body @ ''\<newline>\<newline>'')"
    using g by (simp add: Let_def body_def)
  also have "\<dots> = body @ ''\<newline>\<newline>'' @ cursor_loop f2h later []"
    using cursor_loop_out [of f2h later "body @ ''\<newline>\<newline>''"] by simp
  finally show "\<exists>rest. bundle_cursor_rules h2f f2h section_globs_keys rule_files =
         strip_header (strip_yaml_frontmatter (strip (contents g))) @ ''\<newline>\<newline>'' @ rest"
    unfolding body_def by blast
next
  assume "strip raw \<noteq> []"
  then have "bundle_github_instructions h2f f2h section_globs_keys (Some raw) instr_files =
     strip raw @ ''\<newline>\<newline>'' @
     github_loop f2h (get_ordered_files h2f instr_files section_globs_keys) []"
    using github_loop_out [of f2h _ "strip raw @ ''\<newline>\<newline>''"]
    by (simp add: bundle_github_instructions_def Let_def)
  then show "\<exists>rest. bundle_github_instructions h2f f2h section_globs_keys (Some raw) instr_files =
         strip raw @ ''\<newline>\<newline>'' @ rest"
    by blast
qed

theorem general_fragment_first_witness:
  "find (\<lambda>f. stem f = ''general'' \<and> strip (contents f) \<noteq> [])
     [\<lparr>name = ''b-topic.mdc'', contents = ''Body B''\<rparr>,
      \<lparr>name = ''general.mdc'', contents = ''## General\<newline>\<newline>Hello''\<rparr>]
     = Some \<lparr>name = ''general.mdc'', contents = ''## General\<newline>\<newline>Hello''\<rparr> \<and>
   (\<exists>rest. bundle_cursor_rules header_to_filename filename_to_header []
      [\<lparr>name = ''b-topic.mdc'', contents = ''Body B''\<rparr>,
       \<lparr>name = ''general.mdc'', contents = ''## General\<newline>\<newline>Hello''\<rparr>]
      = ''Hello\<newline>\<newline>'' @ rest) \<and>
   strip ''Hi\<newline>'' \<noteq> [] \<and>
   (\<exists>rest. bundle_github_instructions header_to_filename filename_to_header [] (Some ''Hi\<newline>'')
      [\<lparr>name = ''b-topic.instructions.md'', contents = ''Body B''\<rparr>]
      = ''Hi\<newline>\<newline>'' @ rest)"
proof -
  have a: "find (\<lambda>f. stem f = ''general'' \<and> strip (contents f) \<noteq> [])
     [\<lparr>name = ''b-topic.mdc'', contents = ''Body B''\<rparr>,
      \<lparr>name = ''general.mdc'', contents = ''## General\<newline>\<newline>Hello''\<rparr>]
     = Some \<lparr>name = ''general.mdc'', contents = ''## General\<newline>\<newline>Hello''\<rparr>"
    by code_simp
  have b: "strip_header (strip_yaml_frontmatter (strip (contents
      \<lparr>name = ''general.mdc'', contents = ''## General\<newline>\<newline>Hello''\<rparr>))) = ''Hello''"
    by code_simp
  have c: "strip ''Hi\<newline>'' = ''Hi''"
    by code_simp
  have "\<exists>rest. bundle_cursor_rules header_to_filename filename_to_header []
      [\<lparr>name = ''b-topic.mdc'', contents = ''Body B''\<rparr>,
       \<lparr>name = ''general.mdc'', contents = ''## General\<newline>\<newline>Hello''\<rparr>]
      = ''Hello\<newline>\<newline>'' @ rest"
    using general_fragment_first [of "[\<lparr>name = ''b-topic.mdc'', contents = ''Body B''\<rparr>,
       \<lparr>name = ''general.mdc'', contents = ''## General\<newline>\<newline>Hello''\<rparr>]"
       "\<lparr>name = ''general.mdc'', contents = ''## General\<newline>\<newline>Hello''\<rparr>"
       header_to_filename filename_to_header "[]"] a b
    by simp
  moreover have "\<exists>rest. bundle_github_instructions header_to_filename filename_to_header []
      (Some ''Hi\<newline>'') [\<lparr>name = ''b-topic.instructions.md'', contents = ''Body B''\<rparr>]
      = ''Hi\<newline>\<newline>'' @ rest"
    using general_fragment_first [of _ _ header_to_filename filename_to_header "[]" "''Hi\<newline>''"
       "[\<lparr>name = ''b-topic.instructions.md'', contents = ''Body B''\<rparr>]"] c
    by simp
  ultimately show ?thesis
    using a c by simp
qed

text \<open>
  C9. In github mode the general file is written with its surrounding whitespace
  trimmed and nothing else done to it, before everything the bundler writes without
  a general file; a leading metadata block or header of this file stays.
\<close>

theorem github_general_verbatim:
  "bundle_github_instructions h2f f2h section_globs_keys (Some raw) instr_files =
     (if strip raw = [] then [] else strip raw @ ''\<newline>\<newline>'') @
     bundle_github_instructions h2f f2h section_globs_keys None instr_files"
  by (simp add: bundle_github_instructions_def Let_def github_loop_out [of _ _ "_ @ _"])

theorem github_general_verbatim_witness:
  "bundle_github_instructions header_to_filename filename_to_header [''Python'']
     (Some ''---\<newline>a: b\<newline>---\<newline>## T\<newline>body\<newline>'')
     [\<lparr>name = ''python.instructions.md'', contents = ''## Python\<newline>\<newline>Use it''\<rparr>] =
   ''---\<newline>a: b\<newline>---\<newline>## T\<newline>body\<newline>\<newline>'' @
   bundle_github_instructions header_to_filename filename_to_header [''Python''] None
     [\<lparr>name = ''python.instructions.md'', contents = ''## Python\<newline>\<newline>Use it''\<rparr>]"
proof -
  have s: "strip ''---\<newline>a: b\<newline>---\<newline>## T\<newline>body\<newline>'' = ''---\<newline>a: b\<newline>---\<newline>## T\<newline>body''"
    by code_simp
  show ?thesis
    using github_general_verbatim [of header_to_filename filename_to_header "[''Python'']"
        "''---\<newline>a: b\<newline>---\<newline>## T\<newline>body\<newline>''"
        "[\<lparr>name = ''python.instructions.md'', contents = ''## Python\<newline>\<newline>Use it''\<rparr>]"]
    by (simp add: s)
qed

lemma three_files_orders:
  assumes "distinct fs" and "set fs = {a, b, c}" and "a \<noteq> b" and "a \<noteq> c" and "b \<noteq> c"
  shows "fs \<in> {[a, b, c], [a, c, b], [b, a, c], [b, c, a], [c, a, b], [c, b, a]}"
proof -
  have "length fs = 3"
    using assms distinct_card [of fs] by simp
  then obtain x y z where fs: "fs = [x, y, z]"
    by (auto simp: length_Suc_conv numeral_3_eq_3)
  with assms(2) have "x \<in> {a, b, c}" "y \<in> {a, b, c}" "z \<in> {a, b, c}"
    by auto
  moreover from assms(1) fs have "x \<noteq> y" "x \<noteq> z" "y \<noteq> z"
    by auto
  moreover from assms(2) fs have "a \<in> {x, y, z}" "b \<in> {x, y, z}" "c \<in> {x, y, z}"
    by auto
  ultimately show ?thesis
    unfolding fs by auto
qed

text \<open>
  C8. The example of the specification: with helpers that send the canonical name
  \<open>A Topic\<close> to the file name \<open>a-topic\<close> and the two stems back to their titles, the
  three files give exactly the output the specification shows, in whatever order the
  directory listing returns them.
\<close>

theorem bundle_cursor_rules_example:
  assumes "h2f ''A Topic'' = ''a-topic''"
    and "f2h ''a-topic'' = ''A Topic''"
    and "f2h ''b-topic'' = ''B Topic''"
    and "distinct rule_files"
    and "set rule_files =
      {\<lparr>name = ''general.mdc'', contents = ''Hello''\<rparr>,
       \<lparr>name = ''b-topic.mdc'', contents = ''## B Topic\<newline>\<newline>Body B''\<rparr>,
       \<lparr>name = ''a-topic.mdc'', contents = ''## A Topic\<newline>\<newline>Body A''\<rparr>}"
  shows "bundle_cursor_rules h2f f2h [''A Topic''] rule_files =
     ''Hello\<newline>\<newline>## A Topic\<newline>\<newline>Body A\<newline>\<newline>## B Topic\<newline>\<newline>Body B\<newline>\<newline>''"
proof -
  define G where "G = \<lparr>name = ''general.mdc'', contents = ''Hello''\<rparr>"
  define B where "B = \<lparr>name = ''b-topic.mdc'', contents = ''## B Topic\<newline>\<newline>Body B''\<rparr>"
  define A where "A = \<lparr>name = ''a-topic.mdc'', contents = ''## A Topic\<newline>\<newline>Body A''\<rparr>"
  have stems: "stem G = ''general''" "stem B = ''b-topic''" "stem A = ''a-topic''"
    unfolding G_def B_def A_def by code_simp+
  have bodies:
    "strip (contents G) = ''Hello''"
    "strip_header (strip_yaml_frontmatter ''Hello'') = ''Hello''"
    "strip (contents B) = ''## B Topic\<newline>\<newline>Body B''"
    "strip_header (strip_yaml_frontmatter ''## B Topic\<newline>\<newline>Body B'') = ''Body B''"
    "strip (contents A) = ''## A Topic\<newline>\<newline>Body A''"
    "strip_header (strip_yaml_frontmatter ''## A Topic\<newline>\<newline>Body A'') = ''Body A''"
    unfolding G_def B_def A_def by code_simp+
  have names: "name A \<le> name B" "\<not> name B \<le> name A"
    unfolding A_def B_def by code_simp+
  have order: "get_ordered_files h2f [B, A] [''A Topic''] = [A, B]"
    "get_ordered_files h2f [A, B] [''A Topic''] = [A, B]"
    using assms(1) by (simp_all add: get_ordered_files_def file_dict_of_def stems)
  have out: "cursor_loop f2h [G, A, B] [] =
      ''Hello\<newline>\<newline>## A Topic\<newline>\<newline>Body A\<newline>\<newline>## B Topic\<newline>\<newline>Body B\<newline>\<newline>''"
    using assms(2,3) by (simp add: stems bodies)
  have ne: "G \<noteq> B" "G \<noteq> A" "B \<noteq> A"
    unfolding G_def B_def A_def by simp_all
  have "rule_files \<in> {[G, B, A], [G, A, B], [B, G, A], [B, A, G], [A, G, B], [A, B, G]}"
    using three_files_orders [OF assms(4) assms(5) [folded G_def B_def A_def] ne] .
  then have "bundle_cursor_rules h2f f2h [''A Topic''] rule_files = cursor_loop f2h [G, A, B] []"
    by (auto simp: bundle_cursor_rules_def stems order)
  with out show ?thesis
    by simp
qed

theorem bundle_cursor_rules_example_witness:
  "header_to_filename ''A Topic'' = ''a-topic'' \<and>
   filename_to_header ''a-topic'' = ''A Topic'' \<and>
   filename_to_header ''b-topic'' = ''B Topic'' \<and>
   distinct [\<lparr>name = ''general.mdc'', contents = ''Hello''\<rparr>,
      \<lparr>name = ''b-topic.mdc'', contents = ''## B Topic\<newline>\<newline>Body B''\<rparr>,
      \<lparr>name = ''a-topic.mdc'', contents = ''## A Topic\<newline>\<newline>Body A''\<rparr>] \<and>
   bundle_cursor_rules header_to_filename filename_to_header [''A Topic'']
     [\<lparr>name = ''general.mdc'', contents = ''Hello''\<rparr>,
      \<lparr>name = ''b-topic.mdc'', contents = ''## B Topic\<newline>\<newline>Body B''\<rparr>,
      \<lparr>name = ''a-topic.mdc'', contents = ''## A Topic\<newline>\<newline>Body A''\<rparr>] =
     ''Hello\<newline>\<newline>## A Topic\<newline>\<newline>Body A\<newline>\<newline>## B Topic\<newline>\<newline>Body B\<newline>\<newline>''"
proof -
  have a: "header_to_filename ''A Topic'' = ''a-topic''" by code_simp
  have b: "filename_to_header ''a-topic'' = ''A Topic''" by code_simp
  have c: "filename_to_header ''b-topic'' = ''B Topic''" by code_simp
  have d: "distinct [\<lparr>name = ''general.mdc'', contents = ''Hello''\<rparr>,
      \<lparr>name = ''b-topic.mdc'', contents = ''## B Topic\<newline>\<newline>Body B''\<rparr>,
      \<lparr>name = ''a-topic.mdc'', contents = ''## A Topic\<newline>\<newline>Body A''\<rparr>]"
    by simp
  have e: "set [\<lparr>name = ''general.mdc'', contents = ''Hello''\<rparr>,
      \<lparr>name = ''b-topic.mdc'', contents = ''## B Topic\<newline>\<newline>Body B''\<rparr>,
      \<lparr>name = ''a-topic.mdc'', contents = ''## A Topic\<newline>\<newline>Body A''\<rparr>] =
      {\<lparr>name = ''general.mdc'', contents = ''Hello''\<rparr>,
       \<lparr>name = ''b-topic.mdc'', contents = ''## B Topic\<newline>\<newline>Body B''\<rparr>,
       \<lparr>name = ''a-topic.mdc'', contents = ''## A Topic\<newline>\<newline>Body A''\<rparr>}"
    by simp
  show ?thesis
    using a b c d bundle_cursor_rules_example [of header_to_filename filename_to_header, OF a b c d e] by simp
qed

end
